theory Spec2Isabelle
  imports Complex_Main
begin

section \<open>Python strings and the built-ins used by \<open>extract_coordinates\<close>\<close>

text \<open>
  A Python \<open>str\<close> is a sequence of Unicode code points, so a string is a list of
  code points (natural numbers); the recognized text of the tracker contains
  Japanese characters and the full-width colon U+FF1A, which no 8-bit character
  type holds.  \<open>ascii\<close> turns an Isabelle string literal into such a list.
\<close>

type_synonym ustr = "nat list"

abbreviation ascii :: "string \<Rightarrow> ustr" where
  "ascii s \<equiv> map of_char s"

text \<open>
  \<open>str.replace(old, new)\<close> for a pattern \<open>old\<close> of one character, which is the
  only way main.py calls it: every occurrence is replaced, left to right.
\<close>

definition str_replace :: "nat \<Rightarrow> ustr \<Rightarrow> ustr \<Rightarrow> ustr" where
  "str_replace old new s = concat (map (\<lambda>c. if c = old then new else [c]) s)"

text \<open>
  \<open>str.split(sep)\<close> for a separator of one character.  The result is never the
  empty list, so the second branch of the \<open>case\<close> is never taken.
\<close>

fun str_split :: "nat \<Rightarrow> ustr \<Rightarrow> ustr list" where
  "str_split sep [] = [[]]"
| "str_split sep (c # cs) =
     (if c = sep then [] # str_split sep cs
      else (case str_split sep cs of
              w # ws \<Rightarrow> (c # w) # ws
            | [] \<Rightarrow> [[c]]))"

text \<open>
  The regular expression class \<open>\d\<close> on a \<open>str\<close> pattern matches the characters of
  Unicode general category Nd, and \<open>float\<close> reads the same characters as digits.
  The category consists of runs of ten consecutive code points with the values
  0 to 9; the table lists the first code point of every run (Unicode 14.0).
\<close>

definition decimal_runs :: "nat list" where
  "decimal_runs =
    [48, 1632, 1776, 1984, 2406, 2534, 2662, 2790, 2918, 3046, 3174, 3302, 3430,
     3558, 3664, 3792, 3872, 4160, 4240, 6112, 6160, 6470, 6608, 6784, 6800, 6992,
     7088, 7232, 7248, 42528, 43216, 43264, 43472, 43504, 43600, 44016, 65296,
     66720, 68912, 69734, 69872, 69942, 70096, 70384, 70736, 70864, 71248, 71360,
     71472, 71904, 72016, 72784, 73040, 73120, 92768, 92864, 93008, 120782,
     120792, 120802, 120812, 120822, 123200, 123632, 125264, 130032]"

definition to_decimal :: "nat \<Rightarrow> nat option" where
  "to_decimal c =
     map_option (\<lambda>s. c - s) (find (\<lambda>s. s \<le> c \<and> c < s + 10) decimal_runs)"

definition is_decimal :: "nat \<Rightarrow> bool" where
  "is_decimal c = (to_decimal c \<noteq> None)"

text \<open>\<open>str.isspace\<close> of one character, as \<open>str.strip\<close> and \<open>float\<close> use it.\<close>

definition is_space :: "nat \<Rightarrow> bool" where
  "is_space c =
     ((9 \<le> c \<and> c \<le> 13) \<or> (28 \<le> c \<and> c \<le> 32) \<or> c = 133 \<or> c = 160 \<or> c = 5760
      \<or> (8192 \<le> c \<and> c \<le> 8202) \<or> c = 8232 \<or> c = 8233 \<or> c = 8239 \<or> c = 8287
      \<or> c = 12288)"

definition str_strip :: "ustr \<Rightarrow> ustr" where
  "str_strip s = rev (dropWhile is_space (rev (dropWhile is_space s)))"

subsection \<open>The regular expression \<open>[-+]?\d+\.?\d*\<close>\<close>

text \<open>
  One match attempt at the head of \<open>s\<close>, returning the matched token and the rest.
  The sign is taken greedily; when no digit follows it the engine backtracks to the
  empty sign, and then \<open>\d+\<close> fails on the sign character itself, so the attempt
  fails.  \<open>\d+\<close>, \<open>\.?\<close> and \<open>\d*\<close> are greedy and what follows each of them can
  match the empty string, so their first choice is the match.
\<close>

definition opt_char :: "(nat \<Rightarrow> bool) \<Rightarrow> ustr \<Rightarrow> ustr \<times> ustr" where
  "opt_char P s = (case s of [] \<Rightarrow> ([], []) | c # cs \<Rightarrow> if P c then ([c], cs) else ([], s))"

definition match_number :: "ustr \<Rightarrow> (ustr \<times> ustr) option" where
  "match_number s =
     (let (sg, s1) = opt_char (\<lambda>c. c = 45 \<or> c = 43) s;
          ds = takeWhile is_decimal s1;
          s2 = dropWhile is_decimal s1
      in if ds = [] then None
         else
           let (dot, s3) = opt_char (\<lambda>c. c = 46) s2;
               fs = takeWhile is_decimal s3;
               s4 = dropWhile is_decimal s3
           in Some (sg @ ds @ dot @ fs, s4))"

text \<open>
  \<open>re.findall\<close> with this pattern: scan left to right; a match is emitted and the
  scan goes on after it, a failed attempt moves one character on.
\<close>

lemma opt_char_append: "opt_char P s = (a, r) \<Longrightarrow> s = a @ r"
  by (auto simp: opt_char_def split: list.splits if_splits)

lemma match_number_append:
  assumes "match_number s = Some (tok, rest)"
  shows "s = tok @ rest \<and> tok \<noteq> []"
proof -
  obtain sg s1 where a: "opt_char (\<lambda>c. c = 45 \<or> c = 43) s = (sg, s1)"
    by (cases "opt_char (\<lambda>c. c = 45 \<or> c = 43) s")
  obtain dot s3 where b: "opt_char (\<lambda>c. c = 46) (dropWhile is_decimal s1) = (dot, s3)"
    by (cases "opt_char (\<lambda>c. c = 46) (dropWhile is_decimal s1)")
  from assms a b have ne: "takeWhile is_decimal s1 \<noteq> []"
    and tok: "tok = sg @ takeWhile is_decimal s1 @ dot @ takeWhile is_decimal s3"
    and rest: "rest = dropWhile is_decimal s3"
    by (auto simp: match_number_def Let_def split: if_splits)
  have "s = sg @ s1" using a by (rule opt_char_append)
  moreover have "s1 = takeWhile is_decimal s1 @ dropWhile is_decimal s1" by simp
  moreover have "dropWhile is_decimal s1 = dot @ s3" using b by (rule opt_char_append)
  moreover have "s3 = takeWhile is_decimal s3 @ dropWhile is_decimal s3" by simp
  ultimately have "s = tok @ rest" unfolding tok rest by (metis append.assoc)
  with ne tok show ?thesis by simp
qed

lemma match_number_shorter:
  "match_number s = Some (tok, rest) \<Longrightarrow> length rest < length s"
  using match_number_append [of s tok rest] by (cases tok) auto

function findall :: "ustr \<Rightarrow> ustr list" where
  "findall [] = []"
| "findall (c # cs) =
     (case match_number (c # cs) of
        Some (tok, rest) \<Rightarrow> tok # findall rest
      | None \<Rightarrow> findall cs)"
  by pat_completeness auto
termination
  by (relation "measure length") (auto dest: match_number_shorter)

subsection \<open>The built-in \<open>float\<close> on a string\<close>

text \<open>
  A Python float is modelled by the real number its decimal text denotes: the
  rounding to the nearest binary64 value, the overflow of a large literal to an
  infinity and the sign of zero are not modelled.  Which strings \<open>float\<close> accepts,
  and that it raises \<open>ValueError\<close> on every other string, is modelled in full.
\<close>

datatype py_error = ValueError

datatype pyfloat = Finite real | Inf bool | NaN

text \<open>
  Characters below 127 are kept, Unicode spaces become a space, Unicode decimal
  digits become ASCII digits, and the text is cut at the first other character,
  which is replaced by a question mark.
\<close>

fun transform_decimal_and_space :: "ustr \<Rightarrow> ustr" where
  "transform_decimal_and_space [] = []"
| "transform_decimal_and_space (c # cs) =
     (if c < 127 then c # transform_decimal_and_space cs
      else if is_space c then 32 # transform_decimal_and_space cs
      else (case to_decimal c of
              None \<Rightarrow> [63]
            | Some d \<Rightarrow> (48 + d) # transform_decimal_and_space cs))"

definition ascii_digit :: "nat \<Rightarrow> bool" where
  "ascii_digit c = (48 \<le> c \<and> c \<le> 57)"

definition ascii_space :: "nat \<Rightarrow> bool" where
  "ascii_space c = (c = 32 \<or> (9 \<le> c \<and> c \<le> 13))"

text \<open>An underscore is allowed only between two digits; \<open>prev\<close> starts as 0.\<close>

fun underscores_ok :: "nat \<Rightarrow> ustr \<Rightarrow> bool" where
  "underscores_ok prev [] = (prev \<noteq> 95)"
| "underscores_ok prev (c # cs) =
     (if c = 95 then ascii_digit prev \<and> underscores_ok c cs
      else (prev = 95 \<longrightarrow> ascii_digit c) \<and> underscores_ok c cs)"

definition digits_value :: "ustr \<Rightarrow> nat" where
  "digits_value ds = foldl (\<lambda>a c. 10 * a + (c - 48)) 0 ds"

definition lower_ascii :: "nat \<Rightarrow> nat" where
  "lower_ascii c = (if 65 \<le> c \<and> c \<le> 90 then c + 32 else c)"

text \<open>
  The exponent part: \<open>e\<close> or \<open>E\<close>, an optional sign and at least one digit;
  without a digit nothing is consumed.
\<close>

definition parse_exponent :: "ustr \<Rightarrow> int \<times> ustr" where
  "parse_exponent s =
     (case s of
        [] \<Rightarrow> (0, [])
      | c # cs \<Rightarrow>
          if c = 101 \<or> c = 69 then
            (let (sg, s1) = opt_char (\<lambda>c. c = 45 \<or> c = 43) cs;
                 ds = takeWhile ascii_digit s1
             in if ds = [] then (0, s)
                else ((if sg = [45] then - int (digits_value ds) else int (digits_value ds)),
                      dropWhile ascii_digit s1))
          else (0, s))"

definition scale10 :: "real \<Rightarrow> int \<Rightarrow> real" where
  "scale10 m e = (if 0 \<le> e then m * 10 ^ nat e else m / 10 ^ nat (- e))"

text \<open>
  The number grammar on the stripped ASCII text: sign, digits, an optional point
  with digits, at least one digit in all, an optional exponent, and nothing left
  over; failing that, \<open>inf\<close>, \<open>infinity\<close> or \<open>nan\<close> in any case after the sign.
\<close>

definition string_to_double :: "ustr \<Rightarrow> py_error + pyfloat" where
  "string_to_double s =
     (let (sg, s1) = opt_char (\<lambda>c. c = 45 \<or> c = 43) s;
          neg = (sg = [45]);
          ip = takeWhile ascii_digit s1;
          s2 = dropWhile ascii_digit s1;
          (dot, s3) = opt_char (\<lambda>c. c = 46) s2;
          fp = (if dot = [] then [] else takeWhile ascii_digit s3);
          s4 = (if dot = [] then s2 else dropWhile ascii_digit s3)
      in if ip = [] \<and> fp = [] then
           (let w = map lower_ascii s1
            in if w = ascii ''inf'' \<or> w = ascii ''infinity'' then Inr (Inf neg)
               else if w = ascii ''nan'' then Inr NaN
               else Inl ValueError)
         else
           (let (e, s5) = parse_exponent s4;
                m = real (digits_value (ip @ fp));
                v = scale10 m (e - int (length fp))
            in if s5 = [] then Inr (Finite (if neg then - v else v))
               else Inl ValueError))"

definition py_float :: "ustr \<Rightarrow> py_error + pyfloat" where
  "py_float s =
     (let a = transform_decimal_and_space s
      in if \<not> underscores_ok 0 a then Inl ValueError
         else
           let b = filter (\<lambda>c. c \<noteq> 95) a;
               t = rev (dropWhile ascii_space (rev (dropWhile ascii_space b)))
           in if t = [] then Inl ValueError else string_to_double t)"

section \<open>The tracker\<close>

subsection \<open>\<open>extract_coordinates\<close>\<close>

text \<open>
  The value of \<open>clean_text\<close> after line 45, the chain of six replacements, and
  after lines 48 to 49, the suffix behind the last colon.
\<close>

definition clean_text :: "ustr \<Rightarrow> ustr" where
  "clean_text text =
     str_replace 79 [48]
       (str_replace 73 [49]
         (str_replace 124 []
           (str_replace 59 [58]
             (str_replace 65306 [58]
               (str_replace 32 [] text)))))"

definition colon_suffix :: "ustr \<Rightarrow> ustr" where
  "colon_suffix s = (if 58 \<in> set s then last (str_split 58 s) else s)"

text \<open>
  The body of the \<open>try\<close> block: the three calls of \<open>float\<close>, left to right, the
  first \<open>ValueError\<close> leaving the block.
\<close>

definition parse_three :: "ustr list \<Rightarrow> py_error + (pyfloat \<times> pyfloat \<times> pyfloat)" where
  "parse_three numbers =
     (case py_float (numbers ! 0) of
        Inl e \<Rightarrow> Inl e
      | Inr x \<Rightarrow>
          (case py_float (numbers ! 1) of
             Inl e \<Rightarrow> Inl e
           | Inr y \<Rightarrow>
               (case py_float (numbers ! 2) of
                  Inl e \<Rightarrow> Inl e
                | Inr z \<Rightarrow> Inr (x, y, z))))"

definition extract_coordinates :: "ustr \<Rightarrow> (pyfloat \<times> pyfloat \<times> pyfloat) option" where
  "extract_coordinates text =
     (let numbers = findall (colon_suffix (clean_text text))
      in if length numbers \<ge> 3 then
           (case parse_three numbers of
              Inr coords \<Rightarrow> Some coords
            | Inl ValueError \<Rightarrow> None)
         else None)"

text \<open>The list \<open>numbers\<close> of \<open>extract_coordinates\<close> for a recognized text.\<close>

abbreviation numbers_of :: "ustr \<Rightarrow> ustr list" where
  "numbers_of text \<equiv> findall (colon_suffix (clean_text text))"

text \<open>
  The substitutions as the specification lists them, character by character: a
  space and a vertical bar are dropped, the full-width colon and the semicolon
  become a colon, the letter I becomes 1 and the letter O becomes 0.
\<close>

definition spec_substitution :: "nat \<Rightarrow> ustr" where
  "spec_substitution c =
     (if c = 32 then []
      else if c = 65306 \<or> c = 59 then [58]
      else if c = 124 then []
      else if c = 73 then [49]
      else if c = 79 then [48]
      else [c])"

subsection \<open>Images and the OpenCV calls of \<open>preprocess_image\<close>\<close>

text \<open>
  An image is an 8-bit array with a number of rows, columns and channels.  What the
  pixels hold is kept as a term that records the operations applied to the frame
  the camera delivered: the arithmetic of the filters is not modelled, their order
  and parameters are.
\<close>

datatype pixels =
    Source nat
  | Crop int int int int pixels
  | CvtColorGray pixels
  | Resize pixels
  | MedianBlur nat pixels
  | AdaptiveThreshold nat int pixels
  | BitwiseNot pixels

record image =
  rows :: nat
  cols :: nat
  channels :: nat
  data :: pixels

definition size_of :: "image \<Rightarrow> nat" where
  "size_of img = rows img * cols img * channels img"

text \<open>
  A numpy slice \<open>a:b\<close> of an axis of length \<open>n\<close>: a negative bound counts from the
  end, both bounds are clamped to the axis, and the slice is empty when the bounds
  cross.  Slicing never raises.
\<close>

definition slice_bound :: "int \<Rightarrow> nat \<Rightarrow> int" where
  "slice_bound i n = (if i < 0 then max (i + int n) 0 else min i (int n))"

definition slice_len :: "int \<Rightarrow> int \<Rightarrow> nat \<Rightarrow> nat" where
  "slice_len a b n = nat (slice_bound b n - slice_bound a n)"

definition crop :: "int \<Rightarrow> int \<Rightarrow> int \<Rightarrow> int \<Rightarrow> image \<Rightarrow> image" where
  "crop y0 y1 x0 x1 frame =
     \<lparr>rows = slice_len y0 y1 (rows frame),
      cols = slice_len x0 x1 (cols frame),
      channels = channels frame,
      data = Crop y0 y1 x0 x1 (data frame)\<rparr>"

text \<open>
  The OpenCV calls, with the argument checks that make them raise \<open>cv2.error\<close>:
  \<open>cvtColor\<close> to gray wants a non-empty image of 3 or 4 channels; \<open>resize\<close> by 2.5
  wants a non-empty image and rounds the new size half to even; \<open>medianBlur\<close>
  wants a non-empty image of 1, 3 or 4 channels and an odd kernel size above 1;
  \<open>adaptiveThreshold\<close> wants one channel and an odd block size above 1;
  \<open>bitwise_not\<close> takes any image.
\<close>

datatype cv_error = CvError

definition cvtColor_BGR2GRAY :: "image \<Rightarrow> cv_error + image" where
  "cvtColor_BGR2GRAY img =
     (if size_of img = 0 \<or> \<not> (channels img = 3 \<or> channels img = 4) then Inl CvError
      else Inr (img\<lparr>channels := 1, data := CvtColorGray (data img)\<rparr>))"

definition cv_round_x2_5 :: "nat \<Rightarrow> nat" where
  "cv_round_x2_5 n =
     (let t = 5 * n; q = t div 2
      in if even t then q else if even q then q else q + 1)"

definition resize_x2_5 :: "image \<Rightarrow> cv_error + image" where
  "resize_x2_5 img =
     (if size_of img = 0 then Inl CvError
      else
        let r = cv_round_x2_5 (rows img); c = cv_round_x2_5 (cols img)
        in if r = 0 \<or> c = 0 then Inl CvError
           else Inr (img\<lparr>rows := r, cols := c, data := Resize (data img)\<rparr>))"

definition medianBlur :: "image \<Rightarrow> nat \<Rightarrow> cv_error + image" where
  "medianBlur img ksize =
     (if size_of img = 0 \<or> even ksize \<or> ksize \<le> 1
         \<or> \<not> (channels img = 1 \<or> channels img = 3 \<or> channels img = 4)
      then Inl CvError
      else Inr (img\<lparr>data := MedianBlur ksize (data img)\<rparr>))"

definition adaptiveThreshold :: "image \<Rightarrow> nat \<Rightarrow> int \<Rightarrow> cv_error + image" where
  "adaptiveThreshold img blockSize C =
     (if channels img \<noteq> 1 \<or> even blockSize \<or> blockSize \<le> 1 then Inl CvError
      else Inr (img\<lparr>data := AdaptiveThreshold blockSize C (data img)\<rparr>))"

definition bitwise_not :: "image \<Rightarrow> image" where
  "bitwise_not img = img\<lparr>data := BitwiseNot (data img)\<rparr>"

subsection \<open>The tracker object and \<open>preprocess_image\<close>\<close>

text \<open>
  The fields of \<open>CoordinateTracker\<close>, and with them the file \<open>debug_roi.png\<close>: the
  list of the images written to it, the newest first, so that the file holds the
  head of the list.  Times are the real numbers that the floats of \<open>time.time()\<close>
  denote.
\<close>

record tracker =
  camera_index :: nat
  running :: bool
  last_debug_time :: real
  debug_writes :: "image list"

definition init :: "nat \<Rightarrow> tracker" where
  "init idx = \<lparr>camera_index = idx, running = True, last_debug_time = 0, debug_writes = []\<rparr>"

text \<open>Lines 89 to 93: the throttled write of the debug image at time \<open>current_time\<close>.\<close>

definition debug_sink :: "tracker \<Rightarrow> real \<Rightarrow> image \<Rightarrow> tracker" where
  "debug_sink self current_time final_img =
     (if current_time - last_debug_time self > 5
      then self\<lparr>debug_writes := final_img # debug_writes self,
                last_debug_time := current_time\<rparr>
      else self)"

text \<open>
  \<open>preprocess_image\<close>: \<open>roi\<close> is \<open>None\<close> or an image, \<open>current_time\<close> is what
  \<open>time.time()\<close> returns on line 90.  The result is the \<open>cv2.error\<close> of the first
  call that raises, or the new tracker and the returned value.
\<close>

definition preprocess_image ::
  "tracker \<Rightarrow> image option \<Rightarrow> real \<Rightarrow> cv_error + (tracker \<times> image option)" where
  "preprocess_image self roi current_time =
     (case roi of
        None \<Rightarrow> Inr (self, None)
      | Some r \<Rightarrow>
          if size_of r = 0 then Inr (self, None)
          else
            (case cvtColor_BGR2GRAY r of
               Inl e \<Rightarrow> Inl e
             | Inr gray \<Rightarrow>
                 (case resize_x2_5 gray of
                    Inl e \<Rightarrow> Inl e
                  | Inr resized \<Rightarrow>
                      (case medianBlur resized 3 of
                         Inl e \<Rightarrow> Inl e
                       | Inr blurred \<Rightarrow>
                           (case adaptiveThreshold blurred 13 2 of
                              Inl e \<Rightarrow> Inl e
                            | Inr thresh \<Rightarrow>
                                let final_img = bitwise_not thresh
                                in Inr (debug_sink self current_time final_img,
                                        Some final_img))))))"

text \<open>
  The image that the five steps of \<open>preprocess_image\<close> produce from a region
  \<open>r\<close> when none of them raises.
\<close>

definition enhanced :: "image \<Rightarrow> image" where
  "enhanced r =
     \<lparr>rows = cv_round_x2_5 (rows r), cols = cv_round_x2_5 (cols r), channels = 1,
      data = BitwiseNot (AdaptiveThreshold 13 2 (MedianBlur 3 (Resize (CvtColorGray (data r)))))\<rparr>"

subsection \<open>The loop of \<open>start\<close>\<close>

definition ROI_TOP :: int where "ROI_TOP = 10"
definition ROI_BOTTOM :: int where "ROI_BOTTOM = 160"
definition ROI_LEFT :: int where "ROI_LEFT = 10"
definition ROI_RIGHT :: int where "ROI_RIGHT = 600"

text \<open>
  What one pass of the loop reads from outside: the frame of \<open>cap.retrieve()\<close>
  (\<open>None\<close> when \<open>ret\<close> is false) and the values of the three calls of
  \<open>time.time()\<close>.  The OCR engine is a function from the image to its text.
\<close>

record cycle_input =
  frame :: "image option"
  t_start :: real
  t_debug :: real
  t_end :: real

datatype event =
    TesseractNotFound
  | CouldNotOpen
  | TrackingStarted
  | Success pyfloat pyfloat pyfloat
  | RawOutput ustr
  | Sleep real
  | Raised cv_error
  | Stopping
  | Released
  | Finished

text \<open>Line 151: the argument of \<open>time.sleep\<close>.\<close>

definition sleep_duration :: "real \<Rightarrow> real" where
  "sleep_duration elapsed = max (1 / 10) (1 / 2 - elapsed)"

text \<open>Lines 138 to 147: what is printed for the recognized text.\<close>

definition report :: "ustr \<Rightarrow> event list" where
  "report text =
     (case extract_coordinates text of
        Some (x, y, z) \<Rightarrow> [Success x y z]
      | None \<Rightarrow>
          let raw = str_replace 10 [32] (str_strip text)
          in if raw \<noteq> [] then [RawOutput (take 40 raw)] else [])"

text \<open>
  One pass of the loop body, lines 119 to 151.  The third component tells whether
  the loop goes on: it stops on \<open>break\<close> and on an exception.
\<close>

definition cycle ::
  "(image \<Rightarrow> ustr) \<Rightarrow> tracker \<Rightarrow> cycle_input \<Rightarrow> tracker \<times> event list \<times> bool" where
  "cycle ocr self i =
     (case frame i of
        None \<Rightarrow> (self, [], False)
      | Some f \<Rightarrow>
          let roi = crop ROI_TOP ROI_BOTTOM ROI_LEFT ROI_RIGHT f
          in (case preprocess_image self (Some roi) (t_debug i) of
                Inl e \<Rightarrow> (self, [Raised e], False)
              | Inr (self', processed) \<Rightarrow>
                  let printed = (case processed of
                                   None \<Rightarrow> []
                                 | Some p \<Rightarrow> report (ocr p));
                      elapsed = t_end i - t_start i
                  in (self', printed @ [Sleep (sleep_duration elapsed)], True)))"

text \<open>
  The \<open>while\<close> loop over the passes that happen before the operator interrupts:
  the end of the list is the \<open>KeyboardInterrupt\<close>.
\<close>

fun run_loop ::
  "(image \<Rightarrow> ustr) \<Rightarrow> tracker \<Rightarrow> cycle_input list \<Rightarrow> tracker \<times> event list" where
  "run_loop ocr self [] = (self, [Stopping])"
| "run_loop ocr self (i # rest) =
     (if \<not> running self then (self, [])
      else
        (case cycle ocr self i of
           (self', evs, goon) \<Rightarrow>
             if goon then (case run_loop ocr self' rest of (s, later) \<Rightarrow> (s, evs @ later))
             else (self', evs)))"

text \<open>
  \<open>start\<close>: the two checks before the loop, the loop, and the \<open>finally\<close> block.
  \<open>tesseract_exists\<close> is \<open>os.path.exists(TESSERACT_PATH)\<close> and \<open>opened\<close> is
  \<open>cap.isOpened()\<close>.
\<close>

definition start ::
  "(image \<Rightarrow> ustr) \<Rightarrow> bool \<Rightarrow> bool \<Rightarrow> tracker \<Rightarrow> cycle_input list \<Rightarrow> tracker \<times> event list" where
  "start ocr tesseract_exists opened self script =
     (if \<not> tesseract_exists then (self, [TesseractNotFound])
      else if \<not> opened then (self, [CouldNotOpen])
      else
        (case run_loop ocr self script of
           (self', evs) \<Rightarrow> (self', TrackingStarted # evs @ [Released, Finished])))"

text \<open>
  The invariant that the specification asks of the offsets top, bottom, left and
  right (\<open>y0\<close>, \<open>y1\<close>, \<open>x0\<close>, \<open>x1\<close>).
\<close>

definition roi_invariant :: "int \<Rightarrow> int \<Rightarrow> int \<Rightarrow> int \<Rightarrow> nat \<Rightarrow> nat \<Rightarrow> bool" where
  "roi_invariant y0 y1 x0 x1 frame_height frame_width \<longleftrightarrow>
     0 \<le> y0 \<and> y0 < y1 \<and> y1 \<le> int frame_height
     \<and> 0 \<le> x0 \<and> x0 < x1 \<and> x1 \<le> int frame_width"

subsection \<open>The shape of a token\<close>

text \<open>
  What the pattern can match: an optional sign, at least one digit, and then
  nothing or a point followed by digits.  \<open>dg\<close> is the ASCII digit that \<open>float\<close>
  reads for a decimal character.
\<close>

definition number_token :: "ustr \<Rightarrow> bool" where
  "number_token tok \<longleftrightarrow>
     (\<exists>sg ds fr. tok = sg @ ds @ fr \<and> (sg = [] \<or> sg = [45] \<or> sg = [43])
        \<and> ds \<noteq> [] \<and> (\<forall>c\<in>set ds. is_decimal c)
        \<and> (fr = [] \<or> (\<exists>fs. fr = 46 # fs \<and> (\<forall>c\<in>set fs. is_decimal c))))"

definition dg :: "nat \<Rightarrow> nat" where
  "dg c = (if c < 127 then c else 48 + the (to_decimal c))"

section \<open>Facts about the tokens and their parsing\<close>

lemma is_decimal_ascii: "c < 128 \<Longrightarrow> is_decimal c = (48 \<le> c \<and> c \<le> 57)"
  by (auto simp add: is_decimal_def to_decimal_def decimal_runs_def)

lemma find_run:
  "find (\<lambda>s. s \<le> c \<and> c < s + 10) rs = Some s \<Longrightarrow> s \<le> c \<and> c - s < (10::nat)"
  by (induction rs) (auto split: if_splits)

lemma to_decimal_less: "to_decimal c = Some d \<Longrightarrow> d < 10"
  by (auto simp: to_decimal_def dest: find_run)

lemma is_decimal_iff: "is_decimal c \<longleftrightarrow> (\<exists>s\<in>set decimal_runs. s \<le> c \<and> c < s + 10)"
  by (auto simp: is_decimal_def to_decimal_def find_None_iff)

lemma space_not_decimal: "127 \<le> c \<Longrightarrow> is_space c \<Longrightarrow> \<not> is_decimal c"
  unfolding is_decimal_iff is_space_def decimal_runs_def by auto

lemma takeWhile_dropWhile_Nil: "takeWhile P (dropWhile P xs) = []"
  by (induction xs) auto

lemma opt_char_cases: "opt_char P s = (a, r) \<Longrightarrow> (a = [] \<and> r = s) \<or> (\<exists>c. a = [c] \<and> P c \<and> s = c # r)"
  by (auto simp: opt_char_def split: list.splits if_splits)

lemma match_number_token:
  assumes "match_number s = Some (tok, rest)"
  shows "number_token tok"
proof -
  obtain sg s1 where a: "opt_char (\<lambda>c. c = 45 \<or> c = 43) s = (sg, s1)"
    by (cases "opt_char (\<lambda>c. c = 45 \<or> c = 43) s")
  obtain dot s3 where b: "opt_char (\<lambda>c. c = 46) (dropWhile is_decimal s1) = (dot, s3)"
    by (cases "opt_char (\<lambda>c. c = 46) (dropWhile is_decimal s1)")
  from assms a b have ne: "takeWhile is_decimal s1 \<noteq> []"
    and tok: "tok = sg @ takeWhile is_decimal s1 @ dot @ takeWhile is_decimal s3"
    by (auto simp: match_number_def Let_def split: if_splits)
  have sg: "sg = [] \<or> sg = [45] \<or> sg = [43]"
    using opt_char_cases [OF a] by auto
  have d1: "\<forall>c\<in>set (takeWhile is_decimal s1). is_decimal c"
    by (auto dest: set_takeWhileD)
  have d2: "\<forall>c\<in>set (takeWhile is_decimal s3). is_decimal c"
    by (auto dest: set_takeWhileD)
  from opt_char_cases [OF b] show ?thesis
  proof
    assume "dot = [] \<and> s3 = dropWhile is_decimal s1"
    then have "dot = []" "takeWhile is_decimal s3 = []"
      by (auto simp: takeWhile_dropWhile_Nil)
    with tok sg ne d1 show ?thesis
      unfolding number_token_def by (intro exI [of _ sg] exI [of _ "takeWhile is_decimal s1"] exI [of _ "[]"]) simp
  next
    assume "\<exists>c. dot = [c] \<and> c = 46 \<and> dropWhile is_decimal s1 = c # s3"
    then have "dot = [46]" by auto
    with tok sg ne d1 d2 show ?thesis
      unfolding number_token_def
      by (intro exI [of _ sg] exI [of _ "takeWhile is_decimal s1"] exI [of _ "46 # takeWhile is_decimal s3"]) simp
  qed
qed

lemma findall_tokens: "tok \<in> set (findall s) \<Longrightarrow> number_token tok"
proof (induction s rule: findall.induct)
  case 1
  then show ?case by simp
next
  case (2 c cs)
  show ?case
  proof (cases "match_number (c # cs)")
    case None
    with 2 show ?thesis by simp
  next
    case (Some p)
    obtain t r where p: "p = (t, r)" by (cases p)
    with Some 2 match_number_token [of "c # cs" t r] show ?thesis by auto
  qed
qed


lemma dg_digit: "is_decimal c \<Longrightarrow> ascii_digit (dg c)"
proof (cases "c < 127")
  case True
  assume "is_decimal c"
  with True show ?thesis by (simp add: dg_def ascii_digit_def is_decimal_ascii)
next
  case False
  assume "is_decimal c"
  then obtain d where d: "to_decimal c = Some d" by (auto simp: is_decimal_def)
  with to_decimal_less [OF d] False show ?thesis by (simp add: dg_def ascii_digit_def)
qed

lemma transform_digits:
  "\<forall>c\<in>set ds. is_decimal c \<Longrightarrow>
   transform_decimal_and_space (ds @ rest) = map dg ds @ transform_decimal_and_space rest"
proof (induction ds)
  case Nil
  then show ?case by simp
next
  case (Cons c ds)
  then have c: "is_decimal c" by simp
  show ?case
  proof (cases "c < 127")
    case True
    with Cons show ?thesis by (simp add: dg_def)
  next
    case False
    then have "\<not> is_space c" using space_not_decimal [of c] c by auto
    moreover obtain d where "to_decimal c = Some d" using c by (auto simp: is_decimal_def)
    ultimately show ?thesis using False Cons by (simp add: dg_def)
  qed
qed

lemma underscores_ok_none: "95 \<notin> set a \<Longrightarrow> prev \<noteq> 95 \<Longrightarrow> underscores_ok prev a"
  by (induction a arbitrary: prev) auto

lemma dropWhile_hd_id: "a \<noteq> [] \<Longrightarrow> \<not> P (hd a) \<Longrightarrow> dropWhile P a = a"
  by (cases a) auto

lemma strip_id:
  assumes "a \<noteq> []" "\<not> P (hd a)" "\<not> P (last a)"
  shows "rev (dropWhile P (rev (dropWhile P a))) = a"
proof -
  have "dropWhile P a = a" using assms by (simp add: dropWhile_hd_id)
  moreover have "dropWhile P (rev a) = rev a"
    using assms by (intro dropWhile_hd_id) (auto simp: hd_rev)
  ultimately show ?thesis by simp
qed

lemma string_to_double_number:
  assumes sg: "sg = [] \<or> sg = [45] \<or> sg = [43]"
    and ds: "ds \<noteq> []" "\<forall>c\<in>set ds. ascii_digit c"
    and fr: "fr = [] \<or> (\<exists>fs. fr = 46 # fs \<and> (\<forall>c\<in>set fs. ascii_digit c))"
  shows "\<exists>v. string_to_double (sg @ ds @ fr) = Inr (Finite v)"
proof -
  obtain d ds' where dd: "ds = d # ds'" using ds by (cases ds) auto
  have d: "ascii_digit d" using ds dd by simp
  then have dn: "d \<noteq> 45" "d \<noteq> 43" by (auto simp: ascii_digit_def)
  have o1: "opt_char (\<lambda>c. c = 45 \<or> c = 43) (sg @ ds @ fr) = (sg, ds @ fr)"
    using sg dd dn by (auto simp: opt_char_def)
  have tw: "takeWhile ascii_digit (ds @ fr) = ds" "dropWhile ascii_digit (ds @ fr) = fr"
    using ds fr by (auto simp: takeWhile_append2 dropWhile_append2 ascii_digit_def)
  from fr show ?thesis
  proof
    assume e: "fr = []"
    have o2: "opt_char (\<lambda>c. c = 46) [] = ([], [])" by (simp add: opt_char_def)
    have t0: "takeWhile ascii_digit ds = ds" "dropWhile ascii_digit ds = []"
      using ds by auto
    from o1 e have o1': "opt_char (\<lambda>c. c = 45 \<or> c = 43) (sg @ ds) = (sg, ds)" by simp
    show ?thesis
      using ds(1) by (simp add: string_to_double_def e o1' Let_def t0 o2 parse_exponent_def)
  next
    assume "\<exists>fs. fr = 46 # fs \<and> (\<forall>c\<in>set fs. ascii_digit c)"
    then obtain fs where fs: "fr = 46 # fs" "\<forall>c\<in>set fs. ascii_digit c" by auto
    then have t2: "takeWhile ascii_digit fs = fs" "dropWhile ascii_digit fs = []" by auto
    have o2: "opt_char (\<lambda>c. c = 46) fr = ([46], fs)" using fs by (simp add: opt_char_def)
    show ?thesis
      unfolding string_to_double_def o1
      using ds(1) by (simp add: Let_def tw o2 t2 parse_exponent_def)
  qed
qed

lemma digit_not_space: "ascii_digit c \<Longrightarrow> \<not> ascii_space c"
  by (simp add: ascii_digit_def ascii_space_def)

lemma py_float_token:
  assumes "number_token tok"
  shows "\<exists>v. py_float tok = Inr (Finite v)"
proof -
  from assms obtain sg ds fr where tok: "tok = sg @ ds @ fr"
    and sg: "sg = [] \<or> sg = [45] \<or> sg = [43]"
    and ds: "ds \<noteq> []" "\<forall>c\<in>set ds. is_decimal c"
    and fr: "fr = [] \<or> (\<exists>fs. fr = 46 # fs \<and> (\<forall>c\<in>set fs. is_decimal c))"
    unfolding number_token_def by blast
  define fr' where "fr' = (case fr of [] \<Rightarrow> [] | c # fs \<Rightarrow> 46 # map dg fs)"
  have tfr: "transform_decimal_and_space fr = fr'"
    using fr transform_digits [of _ "[]"] by (auto simp: fr'_def)
  have tsg: "transform_decimal_and_space (sg @ r) = sg @ transform_decimal_and_space r" for r
    using sg by auto
  have a: "transform_decimal_and_space tok = sg @ map dg ds @ fr'"
    unfolding tok tsg using transform_digits [OF ds(2)] tfr by simp
  have dsd: "\<forall>c\<in>set (map dg ds). ascii_digit c" using ds dg_digit by auto
  have fr'': "fr' = [] \<or> (\<exists>fs. fr' = 46 # fs \<and> (\<forall>c\<in>set fs. ascii_digit c))"
    using fr dg_digit by (auto simp: fr'_def)
  have n95: "\<not> ascii_digit 95" by (simp add: ascii_digit_def)
  have no95: "95 \<notin> set (sg @ map dg ds @ fr')"
    using sg dsd fr'' n95 by auto
  have ne: "sg @ map dg ds @ fr' \<noteq> []" using ds by simp
  have hd: "\<not> ascii_space (hd (sg @ map dg ds @ fr'))"
    using sg ds dsd by (cases ds) (auto simp: ascii_space_def ascii_digit_def)
  have last: "\<not> ascii_space (last (sg @ map dg ds @ fr'))"
  proof (cases "fr' = []")
    case True
    have "last (map dg ds) \<in> set (map dg ds)" using ds by (intro last_in_set) simp
    with dsd have "ascii_digit (last (map dg ds))" by blast
    then have "\<not> ascii_space (last (map dg ds))" by (rule digit_not_space)
    with True ds show ?thesis by simp
  next
    case False
    with fr'' obtain fs where fs: "fr' = 46 # fs" "\<forall>c\<in>set fs. ascii_digit c" by auto
    show ?thesis
    proof (cases "fs = []")
      case True
      with fs show ?thesis by (simp add: ascii_space_def)
    next
      case False
      then have "last fs \<in> set fs" by simp
      with fs have "ascii_digit (last fs)" by blast
      then have "\<not> ascii_space (last fs)" by (rule digit_not_space)
      with fs False show ?thesis by simp
    qed
  qed
  have f: "filter (\<lambda>c. c \<noteq> 95) (sg @ map dg ds @ fr') = sg @ map dg ds @ fr'"
    using no95 by (intro filter_True) auto
  have s: "rev (dropWhile ascii_space (rev (dropWhile ascii_space (sg @ map dg ds @ fr'))))
      = sg @ map dg ds @ fr'"
    using ne hd last by (rule strip_id)
  have u: "underscores_ok 0 (sg @ map dg ds @ fr')"
    using no95 by (intro underscores_ok_none) auto
  obtain v where "string_to_double (sg @ map dg ds @ fr') = Inr (Finite v)"
    using string_to_double_number [OF sg _ dsd fr''] ds by auto
  then have v: "string_to_double (transform_decimal_and_space tok) = Inr (Finite v)"
    by (simp only: a)
  have "py_float tok = string_to_double (transform_decimal_and_space tok)"
    unfolding py_float_def Let_def using u f s ne by (simp only: a if_False not_True_eq_False simp_thms)
  with v show ?thesis by simp
qed

lemmas eval_extract =
  extract_coordinates_def clean_text_def str_replace_def colon_suffix_def match_number_def
  opt_char_def is_decimal_ascii parse_three_def py_float_def string_to_double_def
  ascii_digit_def ascii_space_def parse_exponent_def digits_value_def scale10_def Let_def

lemma token_has_digit: "number_token tok \<Longrightarrow> \<exists>c\<in>set tok. is_decimal c"
  unfolding number_token_def by (metis Un_iff last_in_set set_append)

lemma parse_three_ok:
  assumes "3 \<le> length ns" "\<forall>tok\<in>set ns. \<exists>v. py_float tok = Inr (Finite v)"
  shows "\<exists>x y z. py_float (ns ! 0) = Inr x \<and> py_float (ns ! 1) = Inr y
           \<and> py_float (ns ! 2) = Inr z \<and> parse_three ns = Inr (x, y, z)"
proof -
  have "ns ! 0 \<in> set ns" "ns ! 1 \<in> set ns" "ns ! 2 \<in> set ns"
    using assms(1) by (auto intro!: nth_mem)
  with assms(2) obtain x y z where "py_float (ns ! 0) = Inr (Finite x)"
    "py_float (ns ! 1) = Inr (Finite y)" "py_float (ns ! 2) = Inr (Finite z)"
    by blast
  then show ?thesis by (simp add: parse_three_def)
qed

lemma findall_float: "\<forall>tok\<in>set (findall s). \<exists>v. py_float tok = Inr (Finite v)"
  using findall_tokens py_float_token by blast

section \<open>Claims about \<open>extract_coordinates\<close>\<close>

text \<open>
  Claim C1.  When the scan of the normalized text behind the last colon finds fewer
  than three tokens, \<open>extract_coordinates\<close> returns \<open>None\<close>; when it finds three or
  more, it returns the values \<open>float\<close> gives for the first three tokens, in order,
  whatever follows them.  The text "1, 2" gives \<open>None\<close> and "1,2,3,4" gives
  (1.0, 2.0, 3.0).
\<close>

theorem extract_coordinates_first_three:
  "(length (numbers_of text) < 3 \<longrightarrow> extract_coordinates text = None)
   \<and> (3 \<le> length (numbers_of text) \<longrightarrow>
        (\<exists>x y z. py_float (numbers_of text ! 0) = Inr x
           \<and> py_float (numbers_of text ! 1) = Inr y
           \<and> py_float (numbers_of text ! 2) = Inr z
           \<and> extract_coordinates text = Some (x, y, z)))
   \<and> extract_coordinates (ascii ''1, 2'') = None
   \<and> extract_coordinates (ascii ''1,2,3,4'') = Some (Finite 1, Finite 2, Finite 3)"
proof (intro conjI impI)
  assume "length (numbers_of text) < 3"
  then show "extract_coordinates text = None" by (simp add: extract_coordinates_def)
next
  assume n: "3 \<le> length (numbers_of text)"
  from parse_three_ok [OF n findall_float] obtain x y z where
    "py_float (numbers_of text ! 0) = Inr x" "py_float (numbers_of text ! 1) = Inr y"
    "py_float (numbers_of text ! 2) = Inr z" "parse_three (numbers_of text) = Inr (x, y, z)"
    by blast
  with n show "\<exists>x y z. py_float (numbers_of text ! 0) = Inr x
           \<and> py_float (numbers_of text ! 1) = Inr y
           \<and> py_float (numbers_of text ! 2) = Inr z
           \<and> extract_coordinates text = Some (x, y, z)"
    by (simp add: extract_coordinates_def)
next
  show "extract_coordinates (ascii ''1, 2'') = None" by (simp add: eval_extract)
next
  show "extract_coordinates (ascii ''1,2,3,4'') = Some (Finite 1, Finite 2, Finite 3)"
    by (simp add: eval_extract)
qed

theorem extract_coordinates_first_three_witness:
  "length (numbers_of (ascii ''7,8'')) < 3 \<and> extract_coordinates (ascii ''7,8'') = None
   \<and> 3 \<le> length (numbers_of (ascii ''7,8,9,6''))
   \<and> extract_coordinates (ascii ''7,8,9,6'') = Some (Finite 7, Finite 8, Finite 9)"
proof -
  have n1: "numbers_of (ascii ''7,8'') = [[55], [56]]"
    by (simp add: eval_extract)
  have n2: "numbers_of (ascii ''7,8,9,6'') = [[55], [56], [57], [54]]"
    by (simp add: eval_extract)
  have f: "py_float [55] = Inr (Finite 7)" "py_float [56] = Inr (Finite 8)"
    "py_float [57] = Inr (Finite 9)"
    by (simp_all add: eval_extract)
  from extract_coordinates_first_three [of "ascii ''7,8''"] n1
  have a: "extract_coordinates (ascii ''7,8'') = None" by simp
  from extract_coordinates_first_three [of "ascii ''7,8,9,6''"] n2 f
  have b: "extract_coordinates (ascii ''7,8,9,6'') = Some (Finite 7, Finite 8, Finite 9)"
    by auto
  from a b n1 n2 show ?thesis by simp
qed

text \<open>
  Claim C10.  Every token that the pattern matches contains a digit and is accepted
  by \<open>float\<close>; a lone point or a lone sign is never a token.  So the three calls of
  \<open>float\<close> never raise \<open>ValueError\<close>, and \<open>extract_coordinates\<close> returns \<open>None\<close>
  exactly when fewer than three tokens were found, and a triple otherwise.
\<close>

theorem extract_coordinates_never_raises:
  "(\<forall>tok\<in>set (findall s). (\<exists>c\<in>set tok. is_decimal c) \<and> (\<exists>v. py_float tok = Inr (Finite v)))
   \<and> [46] \<notin> set (findall s) \<and> [45] \<notin> set (findall s) \<and> [43] \<notin> set (findall s)
   \<and> (3 \<le> length (numbers_of text) \<longrightarrow> parse_three (numbers_of text) \<noteq> Inl ValueError)
   \<and> (extract_coordinates text = None \<longleftrightarrow> length (numbers_of text) < 3)"
proof -
  have d: "\<forall>tok\<in>set (findall s). \<exists>c\<in>set tok. is_decimal c"
    using findall_tokens token_has_digit by blast
  have nd: "\<not> is_decimal 46" "\<not> is_decimal 45" "\<not> is_decimal 43"
    by (simp_all add: is_decimal_ascii)
  from d nd have lone: "[46] \<notin> set (findall s) \<and> [45] \<notin> set (findall s) \<and> [43] \<notin> set (findall s)"
    by fastforce
  have p: "3 \<le> length (numbers_of text) \<longrightarrow> parse_three (numbers_of text) \<noteq> Inl ValueError"
    using parse_three_ok [OF _ findall_float, of "colon_suffix (clean_text text)"] by auto
  have e: "extract_coordinates text = None \<longleftrightarrow> length (numbers_of text) < 3"
  proof (cases "3 \<le> length (numbers_of text)")
    case True
    from parse_three_ok [OF True findall_float] obtain c where
      "parse_three (numbers_of text) = Inr c" by blast
    with True show ?thesis by (simp add: extract_coordinates_def)
  next
    case False
    then show ?thesis by (simp add: extract_coordinates_def)
  qed
  from d findall_float lone p e show ?thesis by blast
qed

theorem extract_coordinates_never_raises_witness:
  "[45, 51] \<in> set (findall (ascii ''x.-3+.y''))
   \<and> (\<exists>c\<in>set [45, 51]. is_decimal c) \<and> (\<exists>v. py_float [45, 51] = Inr (Finite v))
   \<and> 3 \<le> length (numbers_of (ascii ''a:1.,-2,+3.5b''))
   \<and> parse_three (numbers_of (ascii ''a:1.,-2,+3.5b'')) \<noteq> Inl ValueError
   \<and> extract_coordinates (ascii ''a:1.,-2,+3.5b'') \<noteq> None"
proof -
  have n1: "findall (ascii ''x.-3+.y'') = [[45, 51]]"
    by (simp add: eval_extract)
  have n2: "numbers_of (ascii ''a:1.,-2,+3.5b'') = [[49, 46], [45, 50], [43, 51, 46, 53]]"
    by (simp add: eval_extract)
  from extract_coordinates_never_raises [of "ascii ''x.-3+.y''" "ascii ''a:1.,-2,+3.5b''"] n1 n2
  show ?thesis by simp
qed

lemma str_replace_append:
  "str_replace old new (a @ b) = str_replace old new a @ str_replace old new b"
  by (simp add: str_replace_def)

lemma str_replace_Nil: "str_replace old new [] = []"
  by (simp add: str_replace_def)

lemma str_replace_single: "str_replace old new [c] = (if c = old then new else [c])"
  by (simp add: str_replace_def)

lemma clean_text_Nil: "clean_text [] = []"
  by (simp add: clean_text_def str_replace_Nil)

lemma clean_text_append: "clean_text (a @ b) = clean_text a @ clean_text b"
  by (simp add: clean_text_def str_replace_append)

lemma clean_text_single: "clean_text [c] = spec_substitution c"
  by (simp add: clean_text_def spec_substitution_def str_replace_single str_replace_Nil)

lemma clean_text_Cons: "clean_text (c # cs) = spec_substitution c @ clean_text cs"
  using clean_text_append [of "[c]" cs] by (simp add: clean_text_single)

lemma clean_text_pointwise: "clean_text text = concat (map spec_substitution text)"
  by (induction "text") (simp_all add: clean_text_Nil clean_text_Cons)

lemma set_clean_text:
  "set (clean_text text) = (\<Union>c\<in>set text. set (spec_substitution c))"
  by (simp add: clean_text_pointwise)

lemma colon_in_substitution:
  "58 \<in> set (spec_substitution c) \<longleftrightarrow> c = 58 \<or> c = 59 \<or> c = 65306"
  by (simp add: spec_substitution_def)

lemma clean_text_id:
  "set s \<inter> {32, 65306, 59, 124, 73, 79} = {} \<Longrightarrow> clean_text s = s"
  by (induction s) (auto simp: clean_text_Nil clean_text_Cons spec_substitution_def)

lemma clean_text_clean: "set (clean_text text) \<inter> {32, 65306, 59, 124, 73, 79} = {}"
  by (auto simp: set_clean_text spec_substitution_def split: if_splits)

lemma str_split_no_sep: "sep \<notin> set s \<Longrightarrow> str_split sep s = [s]"
  by (induction s) auto

lemma str_split_last:
  "sep \<notin> set suf \<Longrightarrow>
   \<exists>w ws. str_split sep (pre @ sep # suf) = w # ws \<and> ws \<noteq> [] \<and> last ws = suf"
proof (induction pre)
  case Nil
  then show ?case by (simp add: str_split_no_sep)
next
  case (Cons c pre)
  then obtain w ws where "str_split sep (pre @ sep # suf) = w # ws" "ws \<noteq> []" "last ws = suf"
    by blast
  then show ?case by simp
qed

lemma colon_suffix_last:
  assumes "58 \<notin> set suf"
  shows "colon_suffix (pre @ 58 # suf) = suf"
proof -
  from str_split_last [OF assms, of pre] obtain w ws where
    "str_split 58 (pre @ 58 # suf) = w # ws" "ws \<noteq> []" "last ws = suf" by blast
  then show ?thesis by (simp add: colon_suffix_def)
qed

lemma extract_coordinates_cong:
  "numbers_of a = numbers_of b \<Longrightarrow> extract_coordinates a = extract_coordinates b"
  by (simp add: extract_coordinates_def)

text \<open>
  Claim C2.  When the normalized text contains a colon, everything up to and
  including its last colon is discarded: the tokens are those of the suffix behind
  it, and the result is the result for that suffix alone.  The text made of the
  two characters U+5EA7 and U+6A19 and of ": 12.5, -3.0, 100.0" gives
  (12.5, -3.0, 100.0).
\<close>

theorem extract_coordinates_last_colon:
  "(58 \<in> set (clean_text text) \<longrightarrow>
      (\<exists>pre suf. clean_text text = pre @ 58 # suf \<and> 58 \<notin> set suf
         \<and> colon_suffix (clean_text text) = suf
         \<and> numbers_of text = findall suf
         \<and> extract_coordinates text = extract_coordinates suf))
   \<and> extract_coordinates ([24231, 27161] @ ascii '': 12.5, -3.0, 100.0'')
       = Some (Finite (25 / 2), Finite (- 3), Finite 100)"
proof (intro conjI impI)
  assume "58 \<in> set (clean_text text)"
  then obtain pre suf where d: "clean_text text = pre @ 58 # suf" "58 \<notin> set suf"
    by (auto dest: split_list_last)
  then have cs: "colon_suffix (clean_text text) = suf" by (simp add: colon_suffix_last)
  have "set suf \<subseteq> set (clean_text text)" using d by auto
  with clean_text_clean [of "text"] have "set suf \<inter> {32, 65306, 59, 124, 73, 79} = {}" by blast
  then have "clean_text suf = suf" by (rule clean_text_id)
  moreover have "colon_suffix suf = suf" using d by (simp add: colon_suffix_def)
  ultimately have n: "numbers_of suf = findall suf" by simp
  with cs have "numbers_of text = numbers_of suf" by simp
  then have "extract_coordinates text = extract_coordinates suf"
    by (rule extract_coordinates_cong)
  with d cs show "\<exists>pre suf. clean_text text = pre @ 58 # suf \<and> 58 \<notin> set suf
         \<and> colon_suffix (clean_text text) = suf
         \<and> numbers_of text = findall suf
         \<and> extract_coordinates text = extract_coordinates suf"
    by auto
next
  show "extract_coordinates ([24231, 27161] @ ascii '': 12.5, -3.0, 100.0'')
       = Some (Finite (25 / 2), Finite (- 3), Finite 100)"
    by (simp add: eval_extract)
qed

theorem extract_coordinates_last_colon_witness:
  "58 \<in> set (clean_text (ascii ''9:8;1, 2, 3''))
   \<and> colon_suffix (clean_text (ascii ''9:8;1, 2, 3'')) = ascii ''1,2,3''
   \<and> extract_coordinates (ascii ''9:8;1, 2, 3'') = extract_coordinates (ascii ''1,2,3'')"
proof -
  have c: "clean_text (ascii ''9:8;1, 2, 3'') = ascii ''9:8:1,2,3''"
    by (simp add: clean_text_def str_replace_def)
  then have m: "58 \<in> set (clean_text (ascii ''9:8;1, 2, 3''))" by simp
  have s: "colon_suffix (clean_text (ascii ''9:8;1, 2, 3'')) = ascii ''1,2,3''"
    unfolding c by (simp add: colon_suffix_def)
  from extract_coordinates_last_colon [of "ascii ''9:8;1, 2, 3''"] m s
  have "extract_coordinates (ascii ''9:8;1, 2, 3'') = extract_coordinates (ascii ''1,2,3'')"
    by auto
  with m s show ?thesis by simp
qed

text \<open>
  Claim C3.  The normalization is the chain of the six replacements in the order
  of line 45, which amounts to the listed substitution of every character; it runs
  before the text is split at the colon, so that a semicolon or a full-width colon
  of the input is a colon for the split.  The text "12;O.5, -3, 1OO" gives
  (0.5, -3.0, 100.0).
\<close>

theorem clean_text_substitutions:
  "clean_text text = concat (map spec_substitution text)
   \<and> clean_text text =
       str_replace 79 [48] (str_replace 73 [49] (str_replace 124 [] (str_replace 59 [58]
         (str_replace 65306 [58] (str_replace 32 [] text)))))
   \<and> (58 \<in> set (clean_text text) \<longleftrightarrow> 58 \<in> set text \<or> 59 \<in> set text \<or> 65306 \<in> set text)
   \<and> extract_coordinates text =
       (if 3 \<le> length (findall (colon_suffix (clean_text text)))
        then (case parse_three (findall (colon_suffix (clean_text text))) of
                Inr coords \<Rightarrow> Some coords | Inl e \<Rightarrow> None)
        else None)
   \<and> extract_coordinates (ascii ''12;O.5, -3, 1OO'')
       = Some (Finite (1 / 2), Finite (- 3), Finite 100)"
proof (intro conjI)
  show "clean_text text = concat (map spec_substitution text)" by (rule clean_text_pointwise)
  show "clean_text text =
       str_replace 79 [48] (str_replace 73 [49] (str_replace 124 [] (str_replace 59 [58]
         (str_replace 65306 [58] (str_replace 32 [] text)))))"
    by (simp add: clean_text_def)
  show "58 \<in> set (clean_text text) \<longleftrightarrow> 58 \<in> set text \<or> 59 \<in> set text \<or> 65306 \<in> set text"
    by (auto simp: set_clean_text colon_in_substitution)
  show "extract_coordinates text =
       (if 3 \<le> length (findall (colon_suffix (clean_text text)))
        then (case parse_three (findall (colon_suffix (clean_text text))) of
                Inr coords \<Rightarrow> Some coords | Inl e \<Rightarrow> None)
        else None)"
    by (simp add: extract_coordinates_def split: sum.splits py_error.splits)
  show "extract_coordinates (ascii ''12;O.5, -3, 1OO'')
       = Some (Finite (1 / 2), Finite (- 3), Finite 100)"
    by (simp add: eval_extract)
qed

theorem clean_text_substitutions_witness:
  "clean_text ([65306] @ ascii ''I|O ;'') = ascii '':10:''
   \<and> 58 \<in> set (clean_text ([65306] @ ascii ''I|O ;''))"
proof -
  have "concat (map spec_substitution ([65306] @ ascii ''I|O ;'')) = ascii '':10:''"
    by (simp add: spec_substitution_def)
  with clean_text_substitutions [of "[65306] @ ascii ''I|O ;''"] show ?thesis by simp
qed

lemma str_split_pieces: "\<forall>w\<in>set (str_split sep s). set w \<subseteq> set s"
proof (induction s)
  case Nil
  then show ?case by simp
next
  case (Cons c s)
  show ?case
  proof (cases "str_split sep s")
    case Nil
    then show ?thesis by auto
  next
    case (Cons v vs)
    with Cons.IH have "set v \<subseteq> set s" "\<forall>w\<in>set vs. set w \<subseteq> set s" by auto
    with Cons show ?thesis by auto
  qed
qed

lemma str_split_nonempty: "str_split sep s \<noteq> []"
  by (induction s) (auto split: list.splits)

lemma set_colon_suffix: "set (colon_suffix s) \<subseteq> set s"
  using str_split_pieces [of 58 s] str_split_nonempty [of 58 s] last_in_set [of "str_split 58 s"]
  by (auto simp: colon_suffix_def)

lemma space_substitution:
  "is_space c \<Longrightarrow> c \<noteq> 32 \<Longrightarrow> spec_substitution c = [c]"
  "is_space c \<Longrightarrow> c \<noteq> 32 \<Longrightarrow> c \<in> set (spec_substitution d) \<longleftrightarrow> c = d"
  by (auto simp: is_space_def spec_substitution_def)

text \<open>
  Claim C4, as stated: the normalized text contains no whitespace of any kind.
  Line 45 replaces the space U+0020 only, so a line break or a tab of the input is
  still there after it, and behind the colon as well.
\<close>

theorem clean_text_whitespace_counterexample:
  "is_space 10 \<and> 10 \<in> set (clean_text (ascii ''1'' @ [10] @ ascii ''2''))
   \<and> is_space 9 \<and> 9 \<in> set (colon_suffix (clean_text (ascii ''X:'' @ [9] @ ascii ''1'')))"
  by (simp add: is_space_def clean_text_def str_replace_def colon_suffix_def)

text \<open>
  Claim C4, amended.  The normalization removes every space U+0020: neither the
  normalized text nor the suffix that is tokenized contains one.  Every other
  whitespace character is kept: it occurs in the normalized text exactly when it
  occurs in the input.
\<close>

theorem clean_text_removes_spaces:
  "32 \<notin> set (clean_text text) \<and> 32 \<notin> set (colon_suffix (clean_text text))
   \<and> (\<forall>c. is_space c \<and> c \<noteq> 32 \<longrightarrow> (c \<in> set (clean_text text) \<longleftrightarrow> c \<in> set text))"
proof (intro conjI allI impI)
  show a: "32 \<notin> set (clean_text text)"
    using clean_text_clean [of "text"] by auto
  show "32 \<notin> set (colon_suffix (clean_text text))"
    using a set_colon_suffix [of "clean_text text"] by auto
next
  fix c assume "is_space c \<and> c \<noteq> 32"
  then show "c \<in> set (clean_text text) \<longleftrightarrow> c \<in> set text"
    by (auto simp: set_clean_text space_substitution)
qed

theorem clean_text_removes_spaces_witness:
  "is_space 10 \<and> (10::nat) \<noteq> 32 \<and> 10 \<in> set (ascii ''1 '' @ [10] @ ascii '' 2'')
   \<and> 10 \<in> set (clean_text (ascii ''1 '' @ [10] @ ascii '' 2''))
   \<and> 32 \<notin> set (clean_text (ascii ''1 '' @ [10] @ ascii '' 2''))"
proof -
  have "is_space 10" by (simp add: is_space_def)
  with clean_text_removes_spaces [of "ascii ''1 '' @ [10] @ ascii '' 2''"]
  show ?thesis by simp
qed

section \<open>Claims about the image, the debug image and the loop\<close>

lemma cv_round_pos: "0 < n \<Longrightarrow> 0 < cv_round_x2_5 n"
  by (auto simp: cv_round_x2_5_def Let_def)

lemma preprocess_image_valid:
  assumes "0 < rows r" "0 < cols r" "channels r = 3 \<or> channels r = 4"
  shows "preprocess_image self (Some r) t = Inr (debug_sink self t (enhanced r), Some (enhanced r))"
proof -
  have g: "cvtColor_BGR2GRAY r = Inr (r\<lparr>channels := 1, data := CvtColorGray (data r)\<rparr>)"
    using assms by (auto simp: cvtColor_BGR2GRAY_def size_of_def)
  let ?g = "r\<lparr>channels := 1, data := CvtColorGray (data r)\<rparr>"
  have p: "0 < cv_round_x2_5 (rows r)" "0 < cv_round_x2_5 (cols r)"
    using assms cv_round_pos by auto
  let ?z = "?g\<lparr>rows := cv_round_x2_5 (rows r), cols := cv_round_x2_5 (cols r),
      data := Resize (data ?g)\<rparr>"
  have z: "resize_x2_5 ?g = Inr ?z"
    using assms p by (simp add: resize_x2_5_def size_of_def Let_def)
  let ?b = "?z\<lparr>data := MedianBlur 3 (data ?z)\<rparr>"
  have b: "medianBlur ?z 3 = Inr ?b"
    using p by (simp add: medianBlur_def size_of_def)
  let ?t = "?b\<lparr>data := AdaptiveThreshold 13 2 (data ?b)\<rparr>"
  have th: "adaptiveThreshold ?b 13 2 = Inr ?t"
    by (simp add: adaptiveThreshold_def)
  have f: "bitwise_not ?t = enhanced r"
    by (simp add: bitwise_not_def enhanced_def)
  have s: "size_of r \<noteq> 0" using assms by (auto simp: size_of_def)
  show ?thesis
    unfolding preprocess_image_def using s
    by (simp only: option.case g z b th f sum.case Let_def if_False)
qed

text \<open>
  Claim C5.  For a region that is \<open>None\<close> or has size zero, \<open>preprocess_image\<close>
  returns \<open>None\<close> and raises nothing.  For a region with at least one row, one
  column and three channels, none of the five steps raises: the gray conversion,
  the resize by 2.5, the median filter of size 3, the adaptive threshold with block
  size 13 and constant 2 and the inversion are applied in this order, and the
  non-empty result is returned.
\<close>

theorem preprocess_image_never_fails:
  "preprocess_image self None t = Inr (self, None)
   \<and> (size_of r = 0 \<longrightarrow> preprocess_image self (Some r) t = Inr (self, None))
   \<and> (0 < rows r \<and> 0 < cols r \<and> channels r = 3 \<longrightarrow>
        cvtColor_BGR2GRAY r \<noteq> Inl CvError
        \<and> preprocess_image self (Some r) t
            = Inr (debug_sink self t (enhanced r), Some (enhanced r))
        \<and> size_of (enhanced r) \<noteq> 0)"
proof (intro conjI impI)
  show "preprocess_image self None t = Inr (self, None)"
    by (simp add: preprocess_image_def)
  show "preprocess_image self (Some r) t = Inr (self, None)" if "size_of r = 0"
    using that by (simp add: preprocess_image_def)
next
  assume a: "0 < rows r \<and> 0 < cols r \<and> channels r = 3"
  then show "cvtColor_BGR2GRAY r \<noteq> Inl CvError"
    by (simp add: cvtColor_BGR2GRAY_def size_of_def)
  from a show "preprocess_image self (Some r) t
      = Inr (debug_sink self t (enhanced r), Some (enhanced r))"
    by (intro preprocess_image_valid) auto
  from a cv_round_pos show "size_of (enhanced r) \<noteq> 0"
    by (simp add: size_of_def enhanced_def)
qed

theorem preprocess_image_never_fails_witness:
  "size_of \<lparr>rows = 0, cols = 590, channels = 3, data = Source 0\<rparr> = 0
   \<and> preprocess_image (init 0) (Some \<lparr>rows = 0, cols = 590, channels = 3, data = Source 0\<rparr>) 7
       = Inr (init 0, None)
   \<and> preprocess_image (init 0) (Some \<lparr>rows = 150, cols = 590, channels = 3, data = Source 0\<rparr>) 3
       = Inr (init 0,
              Some \<lparr>rows = 375, cols = 1475, channels = 1,
                    data = BitwiseNot (AdaptiveThreshold 13 2
                             (MedianBlur 3 (Resize (CvtColorGray (Source 0)))))\<rparr>)"
proof -
  have e: "enhanced \<lparr>rows = 150, cols = 590, channels = 3, data = Source 0\<rparr>
      = \<lparr>rows = 375, cols = 1475, channels = 1,
         data = BitwiseNot (AdaptiveThreshold 13 2
                  (MedianBlur 3 (Resize (CvtColorGray (Source 0)))))\<rparr>"
    by (simp add: enhanced_def cv_round_x2_5_def Let_def)
  have d: "debug_sink (init 0) 3 x = init 0" for x
    by (simp add: debug_sink_def init_def)
  from preprocess_image_never_fails
    [of "init 0" 7 "\<lparr>rows = 0, cols = 590, channels = 3, data = Source 0\<rparr>"]
  have a: "preprocess_image (init 0)
       (Some \<lparr>rows = 0, cols = 590, channels = 3, data = Source 0\<rparr>) 7 = Inr (init 0, None)"
    by (simp add: size_of_def)
  from preprocess_image_never_fails
    [of "init 0" 3 "\<lparr>rows = 150, cols = 590, channels = 3, data = Source 0\<rparr>"]
  have b: "preprocess_image (init 0)
       (Some \<lparr>rows = 150, cols = 590, channels = 3, data = Source 0\<rparr>) 3
       = Inr (init 0,
              Some \<lparr>rows = 375, cols = 1475, channels = 1,
                    data = BitwiseNot (AdaptiveThreshold 13 2
                             (MedianBlur 3 (Resize (CvtColorGray (Source 0)))))\<rparr>)"
    by (simp add: e d)
  from a b show ?thesis by (simp add: size_of_def)
qed

text \<open>
  Claim C6.  The time of the last debug write is 0 when the tracker is created.  A
  call at time \<open>t\<close> writes the debug image and sets that time to \<open>t\<close> when \<open>t\<close>
  minus the stored time exceeds 5, and otherwise writes nothing and leaves the
  tracker as it is.  So of two calls within the interval, the first of them due,
  exactly the first writes, and a call after the interval writes again; two calls
  within the interval never write more than once.
\<close>

theorem debug_sink_throttle:
  "(t - last_debug_time self > 5 \<longrightarrow>
      debug_sink self t img
        = self\<lparr>debug_writes := img # debug_writes self, last_debug_time := t\<rparr>)
   \<and> (\<not> t - last_debug_time self > 5 \<longrightarrow> debug_sink self t img = self)
   \<and> ((debug_writes (debug_sink self t img) = img # debug_writes self
        \<and> last_debug_time (debug_sink self t img) = t
        \<and> t - last_debug_time self > 5)
       \<or> (debug_sink self t img = self \<and> \<not> t - last_debug_time self > 5))
   \<and> last_debug_time (init idx) = 0 \<and> debug_writes (init idx) = []
   \<and> (t1 - last_debug_time self > 5 \<and> t1 \<le> t2 \<and> t2 - t1 \<le> 5 \<longrightarrow>
        debug_writes (debug_sink (debug_sink self t1 a) t2 b) = a # debug_writes self)
   \<and> (t1 - last_debug_time self > 5 \<and> t1 \<le> t2 \<and> t2 - t1 \<le> 5 \<and> t3 - t1 > 5 \<longrightarrow>
        debug_writes (debug_sink (debug_sink (debug_sink self t1 a) t2 b) t3 c)
          = c # a # debug_writes self)
   \<and> (t1 \<le> t2 \<and> t2 - t1 \<le> 5 \<longrightarrow>
        length (debug_writes (debug_sink (debug_sink self t1 a) t2 b))
          \<le> length (debug_writes self) + 1)"
  by (auto simp: debug_sink_def init_def)

theorem debug_sink_throttle_witness:
  "(1000::real) - last_debug_time (init 0) > 5 \<and> (1000::real) \<le> 1003 \<and> (1003::real) - 1000 \<le> 5
   \<and> (1006::real) - 1000 > 5
   \<and> debug_writes (debug_sink (init 0) 1000
         \<lparr>rows = 1, cols = 1, channels = 1, data = Source 1\<rparr>)
       = [\<lparr>rows = 1, cols = 1, channels = 1, data = Source 1\<rparr>]
   \<and> debug_writes (debug_sink (debug_sink (init 0) 1000
         \<lparr>rows = 1, cols = 1, channels = 1, data = Source 1\<rparr>) 1003
         \<lparr>rows = 1, cols = 1, channels = 1, data = Source 2\<rparr>)
       = [\<lparr>rows = 1, cols = 1, channels = 1, data = Source 1\<rparr>]
   \<and> debug_writes (debug_sink (debug_sink (debug_sink (init 0) 1000
         \<lparr>rows = 1, cols = 1, channels = 1, data = Source 1\<rparr>) 1003
         \<lparr>rows = 1, cols = 1, channels = 1, data = Source 2\<rparr>) 1006
         \<lparr>rows = 1, cols = 1, channels = 1, data = Source 3\<rparr>)
       = [\<lparr>rows = 1, cols = 1, channels = 1, data = Source 3\<rparr>,
          \<lparr>rows = 1, cols = 1, channels = 1, data = Source 1\<rparr>]
   \<and> debug_sink (init 0) 4 \<lparr>rows = 1, cols = 1, channels = 1, data = Source 1\<rparr> = init 0"
proof -
  let ?a = "\<lparr>rows = 1, cols = 1, channels = 1, data = Source 1\<rparr>"
  let ?b = "\<lparr>rows = 1, cols = 1, channels = 1, data = Source 2\<rparr>"
  let ?c = "\<lparr>rows = 1, cols = 1, channels = 1, data = Source 3\<rparr>"
  have l: "last_debug_time (init 0) = 0" "debug_writes (init 0) = []"
    by (simp_all add: init_def)
  have h: "(1000::real) - last_debug_time (init 0) > 5" "(1000::real) \<le> 1003"
    "(1003::real) - 1000 \<le> 5" "(1006::real) - 1000 > 5"
    "\<not> (4::real) - last_debug_time (init 0) > 5"
    by (simp_all add: l)
  note T = debug_sink_throttle [of 1000 "init 0" ?a 0 1000 1003 ?a ?b 1006 ?c]
  from T h have "debug_sink (init 0) 1000 ?a
      = (init 0)\<lparr>debug_writes := ?a # debug_writes (init 0), last_debug_time := 1000\<rparr>"
    by blast
  then have x1: "debug_writes (debug_sink (init 0) 1000 ?a) = [?a]" by (simp add: l)
  from T h have "debug_writes (debug_sink (debug_sink (init 0) 1000 ?a) 1003 ?b)
      = ?a # debug_writes (init 0)" by blast
  then have x2: "debug_writes (debug_sink (debug_sink (init 0) 1000 ?a) 1003 ?b) = [?a]"
    by (simp add: l)
  from T h have "debug_writes (debug_sink (debug_sink (debug_sink (init 0) 1000 ?a) 1003 ?b) 1006 ?c)
      = ?c # ?a # debug_writes (init 0)" by blast
  then have x3: "debug_writes (debug_sink (debug_sink (debug_sink (init 0) 1000 ?a) 1003 ?b) 1006 ?c)
      = [?c, ?a]" by (simp add: l)
  from debug_sink_throttle [of 4 "init 0" ?a] h
  have y: "debug_sink (init 0) 4 ?a = init 0" by blast
  from x1 x2 x3 y h show ?thesis by simp
qed

lemma preprocess_image_state:
  assumes "preprocess_image self roi t = Inr (self', out)"
  shows "(out = None \<longrightarrow> self' = self) \<and> (\<forall>img. out = Some img \<longrightarrow> self' = debug_sink self t img)"
  using assms
  by (auto simp: preprocess_image_def Let_def split: option.splits if_splits sum.splits)

text \<open>
  Claim C9, as stated: running \<open>preprocess_image\<close> leaves the time of the last
  debug write and the debug file unchanged.  On a new tracker, with a region of two
  rows and two columns at time 10, it writes the image and sets the time to 10.
\<close>

theorem preprocess_image_side_effect_counterexample:
  "preprocess_image (init 0) (Some \<lparr>rows = 2, cols = 2, channels = 3, data = Source 0\<rparr>) 10
     = Inr ((init 0)\<lparr>debug_writes := [enhanced \<lparr>rows = 2, cols = 2, channels = 3, data = Source 0\<rparr>],
                     last_debug_time := 10\<rparr>,
            Some (enhanced \<lparr>rows = 2, cols = 2, channels = 3, data = Source 0\<rparr>))
   \<and> last_debug_time (init 0) = 0 \<and> debug_writes (init 0) = []"
  by (simp add: preprocess_image_valid debug_sink_def init_def)

text \<open>
  Claim C9, amended.  \<open>preprocess_image\<close> leaves the tracker and the debug file
  unchanged when it returns \<open>None\<close> (a region that is \<open>None\<close> or of size zero) and
  when the interval of 5 has not passed; otherwise it does the throttled debug
  write itself, with the image it returns.  The loop has no debug step of its own:
  the tracker after a pass is the one \<open>preprocess_image\<close> returned.
\<close>

theorem preprocess_image_writes_debug_image:
  "(preprocess_image self roi t = Inr (self', out) \<longrightarrow>
      (out = None \<longrightarrow> self' = self)
      \<and> (\<forall>img. out = Some img \<longrightarrow> self' = debug_sink self t img)
      \<and> (\<not> t - last_debug_time self > 5 \<longrightarrow> self' = self))
   \<and> (roi = None \<or> (\<exists>r. roi = Some r \<and> size_of r = 0) \<longrightarrow>
        preprocess_image self roi t = Inr (self, None))
   \<and> (frame i = Some f
        \<and> preprocess_image self (Some (crop ROI_TOP ROI_BOTTOM ROI_LEFT ROI_RIGHT f)) (t_debug i)
            = Inr (self', out)
        \<longrightarrow> fst (cycle ocr self i) = self')"
proof -
  have 1: "(out = None \<longrightarrow> self' = self)
      \<and> (\<forall>img. out = Some img \<longrightarrow> self' = debug_sink self t img)
      \<and> (\<not> t - last_debug_time self > 5 \<longrightarrow> self' = self)"
    if a: "preprocess_image self roi t = Inr (self', out)"
    using preprocess_image_state [OF a] by (cases out) (auto simp: debug_sink_def)
  have 2: "preprocess_image self roi t = Inr (self, None)"
    if "roi = None \<or> (\<exists>r. roi = Some r \<and> size_of r = 0)"
    using that by (auto simp: preprocess_image_def)
  have 3: "fst (cycle ocr self i) = self'"
    if "frame i = Some f
        \<and> preprocess_image self (Some (crop ROI_TOP ROI_BOTTOM ROI_LEFT ROI_RIGHT f)) (t_debug i)
            = Inr (self', out)"
    using that by (simp add: cycle_def Let_def)
  from 1 2 3 show ?thesis by blast
qed

theorem preprocess_image_writes_debug_image_witness:
  "preprocess_image (init 0) (Some \<lparr>rows = 2, cols = 2, channels = 3, data = Source 0\<rparr>) 4
     = Inr (init 0, Some (enhanced \<lparr>rows = 2, cols = 2, channels = 3, data = Source 0\<rparr>))
   \<and> \<not> (4::real) - last_debug_time (init 0) > 5
   \<and> preprocess_image (init 0) None 9 = Inr (init 0, None)"
proof -
  let ?r = "\<lparr>rows = 2, cols = 2, channels = 3, data = Source 0\<rparr>"
  have h: "\<not> (4::real) - last_debug_time (init 0) > 5" by (simp add: init_def)
  have p: "preprocess_image (init 0) (Some ?r) 4
      = Inr (debug_sink (init 0) 4 (enhanced ?r), Some (enhanced ?r))"
    by (simp add: preprocess_image_valid)
  from preprocess_image_writes_debug_image
    [of "init 0" "Some ?r" 4 "debug_sink (init 0) 4 (enhanced ?r)" "Some (enhanced ?r)"] p h
  have "debug_sink (init 0) 4 (enhanced ?r) = init 0" by blast
  with p have a: "preprocess_image (init 0) (Some ?r) 4 = Inr (init 0, Some (enhanced ?r))"
    by simp
  from preprocess_image_writes_debug_image [of "init 0" None 9]
  have b: "preprocess_image (init 0) None 9 = Inr (init 0, None)" by blast
  from a b h show ?thesis by simp
qed

text \<open>
  Claim C7, as stated: after a pass that took longer than the target interval the
  next pass starts at once.  A pass that took 1 time unit is followed by a sleep of
  0.1, the floor of line 151.
\<close>

theorem sleep_duration_counterexample:
  "sleep_duration 1 = 1 / 10 \<and> sleep_duration 1 \<noteq> 0 \<and> (1::real) > 1 / 2
   \<and> cycle (\<lambda>p. []) (init 0)
        \<lparr>frame = Some \<lparr>rows = 720, cols = 1280, channels = 3, data = Source 0\<rparr>,
         t_start = 100, t_debug = 100, t_end = 101\<rparr>
      = ((init 0)\<lparr>debug_writes :=
            [enhanced (crop ROI_TOP ROI_BOTTOM ROI_LEFT ROI_RIGHT
               \<lparr>rows = 720, cols = 1280, channels = 3, data = Source 0\<rparr>)],
          last_debug_time := 100\<rparr>,
         [Sleep (1 / 10)], True)"
proof -
  let ?f = "\<lparr>rows = 720, cols = 1280, channels = 3, data = Source 0\<rparr>"
  have c: "0 < rows (crop ROI_TOP ROI_BOTTOM ROI_LEFT ROI_RIGHT ?f)"
    "0 < cols (crop ROI_TOP ROI_BOTTOM ROI_LEFT ROI_RIGHT ?f)"
    "channels (crop ROI_TOP ROI_BOTTOM ROI_LEFT ROI_RIGHT ?f) = 3"
    by (simp_all add: crop_def slice_len_def slice_bound_def ROI_TOP_def ROI_BOTTOM_def
        ROI_LEFT_def ROI_RIGHT_def)
  have r: "report [] = []"
    by (simp add: report_def eval_extract str_strip_def)
  have d: "debug_sink (init 0) 100 x = (init 0)\<lparr>debug_writes := [x], last_debug_time := 100\<rparr>" for x
    by (simp add: debug_sink_def init_def)
  show ?thesis
    by (simp add: cycle_def Let_def preprocess_image_valid [OF c(1,2)] c(3) r d sleep_duration_def)
qed

text \<open>
  Claim C7, amended.  Every pass that goes on ends with a sleep of
  \<open>max(0.1, 0.5 - elapsed)\<close>, which is never below the floor 0.1.  For a pass
  shorter than the target 0.5 the period from start to start is at least 0.5 and
  below 0.6, and exactly 0.5 when the pass took at most 0.4.  For a pass longer
  than the target the sleep is the floor 0.1, not zero.
\<close>

theorem sleep_duration_cadence:
  "1 / 10 \<le> sleep_duration e
   \<and> (0 \<le> e \<and> e < 1 / 2 \<longrightarrow> 1 / 2 \<le> e + sleep_duration e \<and> e + sleep_duration e < 6 / 10)
   \<and> (e \<le> 4 / 10 \<longrightarrow> e + sleep_duration e = 1 / 2)
   \<and> (1 / 2 < e \<longrightarrow> sleep_duration e = 1 / 10)
   \<and> (cycle ocr self i = (self', evs, True) \<longrightarrow>
        evs \<noteq> [] \<and> last evs = Sleep (sleep_duration (t_end i - t_start i)))"
proof -
  have 1: "evs \<noteq> [] \<and> last evs = Sleep (sleep_duration (t_end i - t_start i))"
    if "cycle ocr self i = (self', evs, True)"
    using that
    by (auto simp: cycle_def Let_def split: option.splits sum.splits prod.splits)
  have 2: "1 / 10 \<le> sleep_duration e"
    "0 \<le> e \<and> e < 1 / 2 \<longrightarrow> 1 / 2 \<le> e + sleep_duration e \<and> e + sleep_duration e < 6 / 10"
    "e \<le> 4 / 10 \<longrightarrow> e + sleep_duration e = 1 / 2"
    "1 / 2 < e \<longrightarrow> sleep_duration e = 1 / 10"
    by (auto simp: sleep_duration_def max_def)
  from 1 2 show ?thesis by blast
qed

theorem sleep_duration_cadence_witness:
  "(0::real) \<le> 2 / 10 \<and> (2 / 10 :: real) < 1 / 2 \<and> 2 / 10 + sleep_duration (2 / 10) = 1 / 2
   \<and> (1 / 2 :: real) < 3 \<and> sleep_duration 3 = 1 / 10"
proof -
  have h: "(2 / 10 :: real) \<le> 4 / 10" "(1 / 2 :: real) < 3" by simp_all
  from sleep_duration_cadence [of "2 / 10"] h
  have a: "2 / 10 + sleep_duration (2 / 10) = 1 / 2" by blast
  from sleep_duration_cadence [of 3] h
  have b: "sleep_duration 3 = 1 / 10" by blast
  from a b show ?thesis by simp
qed

lemma start_events:
  "start ocr te op self script =
     (if \<not> te then (self, [TesseractNotFound])
      else if \<not> op then (self, [CouldNotOpen])
      else (fst (run_loop ocr self script),
            TrackingStarted # snd (run_loop ocr self script) @ [Released, Finished]))"
  by (simp add: start_def split: prod.splits)

lemma crop_roi_shape:
  "rows (crop ROI_TOP ROI_BOTTOM ROI_LEFT ROI_RIGHT f) = min 160 (rows f) - 10"
  "cols (crop ROI_TOP ROI_BOTTOM ROI_LEFT ROI_RIGHT f) = min 600 (cols f) - 10"
  "channels (crop ROI_TOP ROI_BOTTOM ROI_LEFT ROI_RIGHT f) = channels f"
  by (auto simp: crop_def slice_len_def slice_bound_def ROI_TOP_def ROI_BOTTOM_def
      ROI_LEFT_def ROI_RIGHT_def min_def)

text \<open>
  Claim C8, as stated: offsets that violate the invariant make the program fail
  before the loop begins and never reach the crop.  With a camera that delivers
  frames of 120 rows and 160 columns the offsets violate the invariant, and
  \<open>start\<close> still announces the tracking, crops the frame with them and goes through
  the pass.
\<close>

theorem start_no_roi_check_counterexample:
  "\<not> roi_invariant ROI_TOP ROI_BOTTOM ROI_LEFT ROI_RIGHT 120 160
   \<and> start (\<lambda>p. []) True True (init 0)
        [\<lparr>frame = Some \<lparr>rows = 120, cols = 160, channels = 3, data = Source 0\<rparr>,
          t_start = 100, t_debug = 100, t_end = 101\<rparr>]
      = ((init 0)\<lparr>debug_writes :=
            [\<lparr>rows = 275, cols = 375, channels = 1,
              data = BitwiseNot (AdaptiveThreshold 13 2 (MedianBlur 3 (Resize (CvtColorGray
                       (Crop 10 160 10 600 (Source 0))))))\<rparr>],
          last_debug_time := 100\<rparr>,
         [TrackingStarted, Sleep (1 / 10), Stopping, Released, Finished])"
proof -
  let ?f = "\<lparr>rows = 120, cols = 160, channels = 3, data = Source 0\<rparr>"
  let ?r = "crop ROI_TOP ROI_BOTTOM ROI_LEFT ROI_RIGHT ?f"
  have c: "0 < rows ?r" "0 < cols ?r" "channels ?r = 3"
    by (simp_all add: crop_roi_shape)
  have e: "enhanced ?r = \<lparr>rows = 275, cols = 375, channels = 1,
      data = BitwiseNot (AdaptiveThreshold 13 2 (MedianBlur 3 (Resize (CvtColorGray
               (Crop 10 160 10 600 (Source 0))))))\<rparr>"
    by (simp add: enhanced_def crop_roi_shape cv_round_x2_5_def Let_def)
      (simp add: crop_def ROI_TOP_def ROI_BOTTOM_def ROI_LEFT_def ROI_RIGHT_def)
  have r: "report [] = []"
    by (simp add: report_def eval_extract str_strip_def)
  have d: "debug_sink (init 0) 100 x = (init 0)\<lparr>debug_writes := [x], last_debug_time := 100\<rparr>" for x
    by (simp add: debug_sink_def init_def)
  have cy: "cycle (\<lambda>p. []) (init 0) \<lparr>frame = Some ?f, t_start = 100, t_debug = 100, t_end = 101\<rparr>
      = ((init 0)\<lparr>debug_writes := [enhanced ?r], last_debug_time := 100\<rparr>, [Sleep (1 / 10)], True)"
    by (simp add: cycle_def Let_def preprocess_image_valid [OF c(1,2)] c(3) r d sleep_duration_def)
  have i: "\<not> roi_invariant ROI_TOP ROI_BOTTOM ROI_LEFT ROI_RIGHT 120 160"
    by (simp add: roi_invariant_def ROI_BOTTOM_def)
  have "running (init 0)" by (simp add: init_def)
  then have "start (\<lambda>p. []) True True (init 0)
        [\<lparr>frame = Some ?f, t_start = 100, t_debug = 100, t_end = 101\<rparr>]
      = ((init 0)\<lparr>debug_writes := [enhanced ?r], last_debug_time := 100\<rparr>,
         [TrackingStarted, Sleep (1 / 10), Stopping, Released, Finished])"
    by (simp add: start_def cy)
  with i e show ?thesis by simp
qed

text \<open>
  Claim C8, amended.  \<open>start\<close> checks two things before the loop, the path of
  Tesseract and the opening of the camera, and nothing about the offsets.  The
  fixed offsets 10, 160, 10 and 600 satisfy the invariant exactly for frames of at
  least 160 rows and 600 columns, so for 720 by 1280.  On any frame the crop is
  clamped to the frame and raises nothing, and a frame of at most 10 rows or
  columns gives an empty region, for which \<open>preprocess_image\<close> returns \<open>None\<close>.
\<close>

theorem start_checks_and_crop:
  "start ocr te op self script =
     (if \<not> te then (self, [TesseractNotFound])
      else if \<not> op then (self, [CouldNotOpen])
      else (fst (run_loop ocr self script),
            TrackingStarted # snd (run_loop ocr self script) @ [Released, Finished]))
   \<and> (roi_invariant ROI_TOP ROI_BOTTOM ROI_LEFT ROI_RIGHT h w \<longleftrightarrow> 160 \<le> h \<and> 600 \<le> w)
   \<and> roi_invariant ROI_TOP ROI_BOTTOM ROI_LEFT ROI_RIGHT 720 1280
   \<and> rows (crop ROI_TOP ROI_BOTTOM ROI_LEFT ROI_RIGHT f) = min 160 (rows f) - 10
   \<and> cols (crop ROI_TOP ROI_BOTTOM ROI_LEFT ROI_RIGHT f) = min 600 (cols f) - 10
   \<and> (rows f \<le> 10 \<or> cols f \<le> 10 \<longrightarrow>
        preprocess_image self (Some (crop ROI_TOP ROI_BOTTOM ROI_LEFT ROI_RIGHT f)) t
          = Inr (self, None))"
proof -
  have 1: "roi_invariant ROI_TOP ROI_BOTTOM ROI_LEFT ROI_RIGHT h w \<longleftrightarrow> 160 \<le> h \<and> 600 \<le> w"
    by (auto simp: roi_invariant_def ROI_TOP_def ROI_BOTTOM_def ROI_LEFT_def ROI_RIGHT_def)
  have 2: "roi_invariant ROI_TOP ROI_BOTTOM ROI_LEFT ROI_RIGHT 720 1280"
    by (simp add: roi_invariant_def ROI_TOP_def ROI_BOTTOM_def ROI_LEFT_def ROI_RIGHT_def)
  have 3: "preprocess_image self (Some (crop ROI_TOP ROI_BOTTOM ROI_LEFT ROI_RIGHT f)) t
      = Inr (self, None)" if "rows f \<le> 10 \<or> cols f \<le> 10"
    using that by (auto simp: preprocess_image_def size_of_def crop_roi_shape)
  from start_events [of ocr te op self script] 1 2 3 crop_roi_shape [of f]
  show ?thesis by blast
qed

theorem start_checks_and_crop_witness:
  "(5::nat) \<le> 10
   \<and> preprocess_image (init 0)
        (Some (crop ROI_TOP ROI_BOTTOM ROI_LEFT ROI_RIGHT
           \<lparr>rows = 5, cols = 1280, channels = 3, data = Source 0\<rparr>)) 50
      = Inr (init 0, None)
   \<and> start (\<lambda>p. []) False True (init 0) [] = (init 0, [TesseractNotFound])
   \<and> start (\<lambda>p. []) True False (init 0) [] = (init 0, [CouldNotOpen])"
proof -
  note T = start_checks_and_crop
  from T [where f = "\<lparr>rows = 5, cols = 1280, channels = 3, data = Source 0\<rparr>"
      and self = "init 0" and t = 50]
  have a: "preprocess_image (init 0)
        (Some (crop ROI_TOP ROI_BOTTOM ROI_LEFT ROI_RIGHT
           \<lparr>rows = 5, cols = 1280, channels = 3, data = Source 0\<rparr>)) 50
      = Inr (init 0, None)" by simp
  from T [where ocr = "\<lambda>p. []" and te = False and op = True and self = "init 0"
      and script = "[]"]
  have b: "start (\<lambda>p. []) False True (init 0) [] = (init 0, [TesseractNotFound])" by simp
  from T [where ocr = "\<lambda>p. []" and te = True and op = False and self = "init 0"
      and script = "[]"]
  have c: "start (\<lambda>p. []) True False (init 0) [] = (init 0, [CouldNotOpen])" by simp
  from a b c show ?thesis by simp
qed

end
